theory Spec2Isabelle
  imports
    Complex_Main
    "HOL-Library.Word"
    "HOL-Library.FSet"
    "HOL-Library.Char_ord"
    "HOL-Library.List_Lexorder"
begin

section \<open>The VNID table of a node\<close>

text \<open>
  The Go file keeps, per node, a table from namespace names to 32-bit virtual network
  ids together with a reverse index from each id to the set of namespaces that hold it.
  Every exported and unexported method takes the table's mutex for its whole body, so a
  method is one atomic step; the model below is the sequential semantics of those steps,
  with the table passed in and the updated table returned.

  A Go \<open>error\<close> is modelled by its message, a \<open>uint32\<close> by a 32-bit word, a Go map by
  a partial function, and \<open>sets.String\<close> (a \<open>map[string]struct{}\<close>, hence always
  finite) by a finite set of strings. A Go function returning \<open>(uint32, error)\<close>
  returns both components, as in the source: the number is \<open>0\<close> next to a non-nil
  error, and callers are free to read it. The Go variables called \<open>id\<close> are called
  \<open>vnid\<close> here, \<open>id\<close> being the identity function of HOL.
\<close>

type_synonym uint32 = "32 word"

type_synonym error = string

record nodeVNIDMap =
  ids :: "string \<rightharpoonup> uint32"
  namespaces :: "uint32 \<rightharpoonup> string fset"

definition newNodeVNIDMap :: nodeVNIDMap where
  "newNodeVNIDMap = \<lparr>ids = Map.empty, namespaces = Map.empty\<rparr>"

text \<open>
  \<open>addNamespaceToSet\<close>: a missing set is created empty and stored, then the name is
  inserted into the stored set (the Go set is a reference, so the insertion is seen
  through the table).
\<close>

definition addNamespaceToSet :: "nodeVNIDMap \<Rightarrow> string \<Rightarrow> uint32 \<Rightarrow> nodeVNIDMap" where
  "addNamespaceToSet vmap name vnid =
     (case namespaces vmap vnid of
        None \<Rightarrow> vmap\<lparr>namespaces := (namespaces vmap)(vnid \<mapsto> finsert name {||})\<rparr>
      | Some s \<Rightarrow> vmap\<lparr>namespaces := (namespaces vmap)(vnid \<mapsto> finsert name s)\<rparr>)"

text \<open>
  \<open>removeNamespaceFromSet\<close>: when the id has a set, the name is deleted from it, and
  the key itself is deleted once the set has length 0.
\<close>

definition removeNamespaceFromSet :: "nodeVNIDMap \<Rightarrow> string \<Rightarrow> uint32 \<Rightarrow> nodeVNIDMap" where
  "removeNamespaceFromSet vmap name vnid =
     (case namespaces vmap vnid of
        Some s \<Rightarrow>
          (let s' = s |-| {|name|} in
           if fcard s' = 0
           then vmap\<lparr>namespaces := (namespaces vmap)(vnid := None)\<rparr>
           else vmap\<lparr>namespaces := (namespaces vmap)(vnid \<mapsto> s')\<rparr>)
      | None \<Rightarrow> vmap)"

text \<open>
  \<open>GetNamespaces\<close> returns the sorted listing of the set (\<open>sets.String.List\<close> sorts
  its keys; Go compares strings bytewise, which is the lexicographic order on
  character lists used here), or the \<open>nil\<close> slice when the id has no set. \<open>None\<close>
  stands for \<open>nil\<close>; \<open>Some []\<close> would be the listing of a set that is present and
  empty.
\<close>

definition GetNamespaces :: "nodeVNIDMap \<Rightarrow> uint32 \<Rightarrow> string list option" where
  "GetNamespaces vmap vnid =
     (case namespaces vmap vnid of
        Some s \<Rightarrow> Some (sorted_list_of_fset s)
      | None \<Rightarrow> None)"

text \<open>Membership in a returned slice; ranging over \<open>nil\<close> visits nothing.\<close>

definition inSlice :: "string \<Rightarrow> string list option \<Rightarrow> bool" where
  "inSlice n r = (case r of None \<Rightarrow> False | Some l \<Rightarrow> n \<in> set l)"

definition errNoNetid :: "string \<Rightarrow> error" where
  "errNoNetid name = ''Failed to find netid for namespace: '' @ name @ '' in vnid map''"

definition GetVNID :: "nodeVNIDMap \<Rightarrow> string \<Rightarrow> uint32 \<times> error option" where
  "GetVNID vmap name =
     (case ids vmap name of
        Some vnid \<Rightarrow> (vnid, None)
      | None \<Rightarrow> (0, Some (errNoNetid name)))"

definition setVNID :: "nodeVNIDMap \<Rightarrow> string \<Rightarrow> uint32 \<Rightarrow> nodeVNIDMap" where
  "setVNID vmap name vnid =
     (let vmap1 = (case ids vmap name of
                     Some oldId \<Rightarrow> removeNamespaceFromSet vmap name oldId
                   | None \<Rightarrow> vmap);
          vmap2 = vmap1\<lparr>ids := (ids vmap1)(name \<mapsto> vnid)\<rparr>
      in addNamespaceToSet vmap2 name vnid)"

definition unsetVNID :: "nodeVNIDMap \<Rightarrow> string \<Rightarrow> (uint32 \<times> error option) \<times> nodeVNIDMap" where
  "unsetVNID vmap name =
     (case ids vmap name of
        None \<Rightarrow> ((0, Some (errNoNetid name)), vmap)
      | Some vnid \<Rightarrow>
          (let vmap1 = removeNamespaceFromSet vmap name vnid;
               vmap2 = vmap1\<lparr>ids := (ids vmap1)(name := None)\<rparr>
           in ((vnid, None), vmap2)))"

subsection \<open>Looking a name up with retries\<close>

text \<open>
  \<open>WaitAndGetVNID\<close> hands a closure to \<open>utilwait.ExponentialBackoff\<close> of the
  Kubernetes utility library, which is not part of this repository.
\<close>

text \<open>
  Modelled from the spec: \<open>utilwait.Backoff\<close> and \<open>utilwait.ExponentialBackoff\<close>. The
  specification describes a retry with exponential backoff, given by the initial delay,
  the multiplier and a hard cap on the number of attempts, that returns a failure once
  the attempts are used up. The loop calls the condition at most \<open>Steps\<close> times; before
  every call but the first it sleeps for the current delay and then multiplies the delay
  by \<open>Factor\<close>; it stops at the first call that reports success or an error, and reports
  a timeout when no call did. The jitter of the library is left out: the source leaves
  that field at zero.

  Delays are counted in nanoseconds, as \<open>time.Duration\<close> does. The multiplication is
  done in the rationals and truncated, which is what the library's floating-point
  product gives for the delays that occur here. Sleeping is recorded, in order, in the
  list \<open>slept\<close>, and \<open>attempts\<close> counts the calls of the condition. The condition is
  given the number of the attempt, so that it can read shared state that other tasks
  change while the caller sleeps, and it threads the variables it captures (\<open>final\<close>
  is their last value).
\<close>

record Backoff =
  Duration :: nat
  Factor :: rat
  Steps :: nat

record 's backoff_run =
  outcome :: "error option"
  slept :: "nat list"
  attempts :: nat
  final :: 's

definition ErrWaitTimeout :: error where
  "ErrWaitTimeout = ''timed out waiting for the condition''"

fun backoffLoop ::
  "rat \<Rightarrow> (nat \<Rightarrow> 's \<Rightarrow> (bool \<times> error option) \<times> 's) \<Rightarrow> nat \<Rightarrow> nat \<Rightarrow> nat \<Rightarrow> nat list \<Rightarrow> 's
     \<Rightarrow> 's backoff_run" where
  "backoffLoop factor condition 0 i duration zs s =
     \<lparr>outcome = Some ErrWaitTimeout, slept = zs, attempts = i, final = s\<rparr>"
| "backoffLoop factor condition (Suc k) i duration zs s =
     (let zs' = (if i \<noteq> 0 then zs @ [duration] else zs);
          duration' = (if i \<noteq> 0 then nat \<lfloor>of_nat duration * factor\<rfloor> else duration);
          ((ok, err), s') = condition i s
      in if err \<noteq> None \<or> ok
         then \<lparr>outcome = err, slept = zs', attempts = Suc i, final = s'\<rparr>
         else backoffLoop factor condition k (Suc i) duration' zs' s')"

definition ExponentialBackoff ::
  "Backoff \<Rightarrow> (nat \<Rightarrow> 's \<Rightarrow> (bool \<times> error option) \<times> 's) \<Rightarrow> 's \<Rightarrow> 's backoff_run" where
  "ExponentialBackoff backoff condition s =
     backoffLoop (Factor backoff) condition (Steps backoff) 0 (Duration backoff) [] s"

definition millisecond :: nat where
  "millisecond = 1000000"

text \<open>
  \<open>WaitAndGetVNID\<close>: the closure stores the result of \<open>GetVNID\<close> in the captured
  variable \<open>id\<close> (initially 0) and reports success exactly when the lookup had no error;
  it never reports an error of its own. \<open>vmapAt i\<close> is the table as attempt \<open>i\<close>
  finds it (the namespace watcher may fill it in between attempts).
\<close>

definition WaitAndGetVNID_run :: "(nat \<Rightarrow> nodeVNIDMap) \<Rightarrow> string \<Rightarrow> uint32 backoff_run" where
  "WaitAndGetVNID_run vmapAt name =
     ExponentialBackoff \<lparr>Duration = 100 * millisecond, Factor = 3 / 2, Steps = 5\<rparr>
       (\<lambda>i vnid. (let (vnid', err) = GetVNID (vmapAt i) name in ((err = None, None), vnid')))
       0"

definition WaitAndGetVNID :: "(nat \<Rightarrow> nodeVNIDMap) \<Rightarrow> string \<Rightarrow> uint32 \<times> error option" where
  "WaitAndGetVNID vmapAt name =
     (let r = WaitAndGetVNID_run vmapAt name
      in if outcome r = None then (final r, None) else (0, Some (errNoNetid name)))"

section \<open>The namespace event handler\<close>

text \<open>
  Modelled from the spec: the types \<open>Event\<close>, \<open>EventType\<close> and the payload of an event,
  which the package \<open>etcdmanager\<close> declares outside the sources at hand. An event carries
  a type (Added or Removed) and the namespace with its VNID; the handler reads the fields
  \<open>Type\<close>, \<open>NetNS.NetName\<close> and \<open>NetNS.NetID\<close>, and has a default branch for any
  type other than the two it knows.
\<close>

datatype EventType = EventAdded | EventRemoved | EventOther int

record NetNamespace =
  NetName :: string
  NetID :: uint32

record Event =
  Type :: EventType
  NetNS :: NetNamespace

text \<open>
  Modelled from the spec: the constant \<open>vnid.GlobalVNID\<close> of the package \<open>pkg/vnid\<close>,
  which is not among the sources; the specification names VNID zero as the
  global/default VNID.
\<close>

definition GlobalVNID :: uint32 where
  "GlobalVNID = 0"

text \<open>
  \<open>updatePodNetwork\<close> is the pod/service reconciliation pass. Its body talks to
  collaborators only (it lists the local pods and the services of the namespace, updates
  or deletes the pods, and replaces the rules of every service that has a cluster IP
  under the new VNID); it logs their failures, returns nothing, never reads its argument
  \<open>oldNetID\<close> and calls neither mutator of the table. What the handler decides is
  whether, when and with which arguments the pass runs, so the node keeps the history of
  the passes: each entry has the three arguments and the table as it stands while the
  pass runs. The effects of the pass on pods and flow rules are outside the model.
\<close>

record podNetworkUpdate =
  pnNamespace :: string
  pnOldNetID :: uint32
  pnNetID :: uint32
  pnVnids :: nodeVNIDMap

record KsdnNode =
  vnids :: nodeVNIDMap
  passes :: "podNetworkUpdate list"

definition updatePodNetwork :: "KsdnNode \<Rightarrow> string \<Rightarrow> uint32 \<Rightarrow> uint32 \<Rightarrow> KsdnNode" where
  "updatePodNetwork node namespace oldNetID netID =
     node\<lparr>passes := passes node @
       [\<lparr>pnNamespace = namespace, pnOldNetID = oldNetID, pnNetID = netID,
         pnVnids = vnids node\<rparr>]\<rparr>"

text \<open>One iteration of the loop over the batch.\<close>

definition handleNetnsEvent :: "KsdnNode \<Rightarrow> Event \<Rightarrow> KsdnNode" where
  "handleNetnsEvent node evt =
     (let netns = NetNS evt in
      case Type evt of
        EventAdded \<Rightarrow>
          (let (oldNetID, err) = GetVNID (vnids node) (NetName netns) in
           if err = None \<and> oldNetID = NetID netns then node
           else
             (let node1 = node\<lparr>vnids := setVNID (vnids node) (NetName netns) (NetID netns)\<rparr>
              in updatePodNetwork node1 (NetName netns) oldNetID (NetID netns)))
      | EventRemoved \<Rightarrow>
          (let node1 = updatePodNetwork node (NetName netns) (NetID netns) GlobalVNID
           in node1\<lparr>vnids := snd (unsetVNID (vnids node1) (NetName netns))\<rparr>)
      | EventOther _ \<Rightarrow> node)"

fun nodeHandleNetnsEvent :: "KsdnNode \<Rightarrow> Event list \<Rightarrow> KsdnNode" where
  "nodeHandleNetnsEvent node [] = node"
| "nodeHandleNetnsEvent node (evt # batch) = nodeHandleNetnsEvent (handleNetnsEvent node evt) batch"

section \<open>The service watcher\<close>

text \<open>
  Modelled from the spec: the Kubernetes types \<open>kapi.Service\<close> and \<open>kapi.ServicePort\<close>
  and the helper \<open>kapi.IsServiceIPSet\<close>, none of which is declared in this repository.
  Of a service the watcher reads the UID, the namespace, whether a cluster IP is assigned
  (the address is neither empty nor the word \<open>None\<close>; a service without one is
  headless) and the ordered list of ports, of which it compares the protocol and the
  port number. The other fields are carried along untouched.
\<close>

record ServicePort =
  PortName :: string
  Protocol :: string
  Port :: int
  NodePort :: int

record Service =
  Name :: string
  Namespace :: string
  UID :: string
  ClusterIP :: string
  Ports :: "ServicePort list"

definition IsServiceIPSet :: "Service \<Rightarrow> bool" where
  "IsServiceIPSet service = (ClusterIP service \<noteq> ''None'' \<and> ClusterIP service \<noteq> [])"

text \<open>
  The loop of \<open>isServiceChanged\<close> ranges over the indices of the old list and returns
  at the first position that differs; it is entered only when both lists have the same
  length.
\<close>

fun portsChanged :: "nat list \<Rightarrow> ServicePort list \<Rightarrow> ServicePort list \<Rightarrow> bool" where
  "portsChanged [] old new = False"
| "portsChanged (i # rest) old new =
     (if Protocol (old ! i) \<noteq> Protocol (new ! i) \<or> Port (old ! i) \<noteq> Port (new ! i)
      then True
      else portsChanged rest old new)"

definition isServiceChanged :: "Service \<Rightarrow> Service \<Rightarrow> bool" where
  "isServiceChanged oldsvc newsvc =
     (if length (Ports oldsvc) = length (Ports newsvc)
      then portsChanged [0..<length (Ports oldsvc)] (Ports oldsvc) (Ports newsvc)
      else True)"

text \<open>
  The delta handler of \<open>watchServices\<close>. Its state is the shadow cache \<open>services\<close>,
  keyed by UID. The kinds of delta are those of the cluster API's delta stream. The two
  rule primitives are methods of the node defined elsewhere; they enter as the results
  they return, and the calls made are recorded in order in \<open>issued\<close>. \<open>vmapAt\<close> is
  the VNID table as the attempts of \<open>WaitAndGetVNID\<close> find it. Lines written to the
  log are not part of the model.
\<close>

datatype DeltaType = Sync | Added | Updated | Deleted

definition deltaTypeString :: "DeltaType \<Rightarrow> string" where
  "deltaTypeString t =
     (case t of Sync \<Rightarrow> ''Sync'' | Added \<Rightarrow> ''Added'' | Updated \<Rightarrow> ''Updated''
      | Deleted \<Rightarrow> ''Deleted'')"

datatype ruleCall = CallDeleteServiceRules Service | CallAddServiceRules Service uint32

record ruleProgrammer =
  AddServiceRules :: "Service \<Rightarrow> uint32 \<Rightarrow> error option"
  DeleteServiceRules :: "Service \<Rightarrow> error option"

record serviceWatch =
  services :: "string \<rightharpoonup> Service"
  issued :: "ruleCall list"

definition errSkipped :: "DeltaType \<Rightarrow> error \<Rightarrow> error" where
  "errSkipped t err =
     ''skipped adding service rules for serviceEvent: '' @ deltaTypeString t @
     '', Error: '' @ err"

text \<open>The branch of \<open>Sync\<close>, \<open>Added\<close> and \<open>Updated\<close> after the comparison with the cache.\<close>

definition addService ::
  "ruleProgrammer \<Rightarrow> (nat \<Rightarrow> nodeVNIDMap) \<Rightarrow> DeltaType \<Rightarrow> Service \<Rightarrow> serviceWatch
     \<Rightarrow> error option \<times> serviceWatch" where
  "addService node vmapAt dtype serv st =
     (let (netid, err) = WaitAndGetVNID vmapAt (Namespace serv) in
      case err of
        Some e \<Rightarrow> (Some (errSkipped dtype e), st)
      | None \<Rightarrow>
          (let st1 = st\<lparr>issued := issued st @ [CallAddServiceRules serv netid]\<rparr> in
           case AddServiceRules node serv netid of
             Some e \<Rightarrow> (Some e, st1)
           | None \<Rightarrow> (None, st1\<lparr>services := (services st1)(UID serv \<mapsto> serv)\<rparr>)))"

text \<open>The whole branch of \<open>Sync\<close>, \<open>Added\<close> and \<open>Updated\<close>.\<close>

definition updateService ::
  "ruleProgrammer \<Rightarrow> (nat \<Rightarrow> nodeVNIDMap) \<Rightarrow> DeltaType \<Rightarrow> Service \<Rightarrow> serviceWatch
     \<Rightarrow> error option \<times> serviceWatch" where
  "updateService node vmapAt dtype serv st =
     (case services st (UID serv) of
        Some oldsvc \<Rightarrow>
          if \<not> isServiceChanged oldsvc serv then (None, st)
          else addService node vmapAt dtype serv
                 (st\<lparr>issued := issued st @ [CallDeleteServiceRules oldsvc]\<rparr>)
      | None \<Rightarrow> addService node vmapAt dtype serv st)"

text \<open>The branch of \<open>Deleted\<close>.\<close>

definition deleteService ::
  "ruleProgrammer \<Rightarrow> Service \<Rightarrow> serviceWatch \<Rightarrow> error option \<times> serviceWatch" where
  "deleteService node serv st =
     (let st1 = st\<lparr>services := (services st)(UID serv := None)\<rparr>;
          st2 = st1\<lparr>issued := issued st1 @ [CallDeleteServiceRules serv]\<rparr>
      in (DeleteServiceRules node serv, st2))"

definition handleServiceDelta ::
  "ruleProgrammer \<Rightarrow> (nat \<Rightarrow> nodeVNIDMap) \<Rightarrow> DeltaType \<Rightarrow> Service \<Rightarrow> serviceWatch
     \<Rightarrow> error option \<times> serviceWatch" where
  "handleServiceDelta node vmapAt dtype serv st =
     (if \<not> IsServiceIPSet serv then (None, st)
      else case dtype of
        Sync \<Rightarrow> updateService node vmapAt dtype serv st
      | Added \<Rightarrow> updateService node vmapAt dtype serv st
      | Updated \<Rightarrow> updateService node vmapAt dtype serv st
      | Deleted \<Rightarrow> deleteService node serv st)"

section \<open>Auxiliary notions for the proofs\<close>

text \<open>\<open>holds t n v\<close>: the reverse index of \<open>t\<close> lists the namespace \<open>n\<close> under \<open>v\<close>.\<close>

definition holds :: "nodeVNIDMap \<Rightarrow> string \<Rightarrow> uint32 \<Rightarrow> bool" where
  "holds t n v = (case namespaces t v of None \<Rightarrow> False | Some s \<Rightarrow> n |\<in>| s)"

text \<open>A call of one of the two mutators, and a sequence of calls run from the empty table.\<close>

datatype tableCall = SetVNID string uint32 | UnsetVNID string

fun applyCall :: "nodeVNIDMap \<Rightarrow> tableCall \<Rightarrow> nodeVNIDMap" where
  "applyCall t (SetVNID n v) = setVNID t n v"
| "applyCall t (UnsetVNID n) = snd (unsetVNID t n)"

definition runCalls :: "tableCall list \<Rightarrow> nodeVNIDMap" where
  "runCalls calls = foldl applyCall newNodeVNIDMap calls"

text \<open>Events as the watcher delivers them, and a node that has seen none.\<close>

definition addedEvent :: "string \<Rightarrow> uint32 \<Rightarrow> Event" where
  "addedEvent a v = \<lparr>Type = EventAdded, NetNS = \<lparr>NetName = a, NetID = v\<rparr>\<rparr>"

definition removedEvent :: "string \<Rightarrow> uint32 \<Rightarrow> Event" where
  "removedEvent a v = \<lparr>Type = EventRemoved, NetNS = \<lparr>NetName = a, NetID = v\<rparr>\<rparr>"

definition freshNode :: KsdnNode where
  "freshNode = \<lparr>vnids = newNodeVNIDMap, passes = []\<rparr>"

text \<open>A service with one or more TCP ports, a cache that holds it, and two rule programmers.\<close>

definition tcp :: "string \<Rightarrow> int \<Rightarrow> ServicePort" where
  "tcp n p = \<lparr>PortName = n, Protocol = ''TCP'', Port = p, NodePort = 0\<rparr>"

definition webService :: "ServicePort list \<Rightarrow> Service" where
  "webService ps =
     \<lparr>Name = ''web'', Namespace = ''ns1'', UID = ''uid-1'', ClusterIP = ''10.0.0.7'', Ports = ps\<rparr>"

definition cachedWeb :: serviceWatch where
  "cachedWeb = \<lparr>services = [''uid-1'' \<mapsto> webService [tcp ''http'' 80]], issued = []\<rparr>"

definition rulesOk :: ruleProgrammer where
  "rulesOk = \<lparr>AddServiceRules = (\<lambda>svc netid. None), DeleteServiceRules = (\<lambda>svc. None)\<rparr>"

definition rulesFail :: ruleProgrammer where
  "rulesFail =
     \<lparr>AddServiceRules = (\<lambda>svc netid. Some ''ovs-ofctl: add-flow failed''),
      DeleteServiceRules = (\<lambda>svc. None)\<rparr>"

text \<open>A VNID table that stays empty through all attempts of a lookup.\<close>

definition noVnidsYet :: "nat \<Rightarrow> nodeVNIDMap" where
  "noVnidsYet i = newNodeVNIDMap"

section \<open>Facts about the table\<close>

lemma inSlice_GetNamespaces: "inSlice n (GetNamespaces t v) = holds t n v"
  by (simp add: inSlice_def GetNamespaces_def holds_def split: option.splits)

lemma GetVNID_found_iff: "GetVNID t n = (v, None) \<longleftrightarrow> ids t n = Some v"
  by (simp add: GetVNID_def split: option.splits)

lemma ids_removeNamespaceFromSet: "ids (removeNamespaceFromSet t n v) = ids t"
  by (simp add: removeNamespaceFromSet_def Let_def split: option.splits)

lemma ids_addNamespaceToSet: "ids (addNamespaceToSet t n v) = ids t"
  by (simp add: addNamespaceToSet_def split: option.splits)

lemma holds_addNamespaceToSet:
  "holds (addNamespaceToSet t n v) m w \<longleftrightarrow> holds t m w \<or> (m = n \<and> w = v)"
  by (auto simp: holds_def addNamespaceToSet_def split: option.splits)

lemma holds_removeNamespaceFromSet:
  "holds (removeNamespaceFromSet t n v) m w \<longleftrightarrow> holds t m w \<and> \<not> (m = n \<and> w = v)"
  by (auto simp: holds_def removeNamespaceFromSet_def Let_def split: option.splits)

lemma holds_ids_update: "holds (t\<lparr>ids := f\<rparr>) m w = holds t m w"
  by (simp add: holds_def)

lemma ids_setVNID: "ids (setVNID t n v) = (ids t)(n \<mapsto> v)"
  by (simp add: setVNID_def Let_def ids_addNamespaceToSet ids_removeNamespaceFromSet
      split: option.splits)

lemma holds_setVNID:
  "holds (setVNID t n v) m w \<longleftrightarrow>
     (holds t m w \<and> \<not> (m = n \<and> ids t n = Some w)) \<or> (m = n \<and> w = v)"
  by (cases "ids t n")
     (auto simp: setVNID_def Let_def holds_addNamespaceToSet holds_removeNamespaceFromSet
      holds_ids_update)

lemma ids_unsetVNID: "ids (snd (unsetVNID t n)) = (ids t)(n := None)"
  by (auto simp: unsetVNID_def Let_def ids_removeNamespaceFromSet split: option.splits)

lemma holds_unsetVNID:
  "holds (snd (unsetVNID t n)) m w \<longleftrightarrow> holds t m w \<and> \<not> (m = n \<and> ids t n = Some w)"
  by (cases "ids t n")
     (auto simp: unsetVNID_def Let_def holds_removeNamespaceFromSet holds_ids_update)

lemma lockstep_applyCall:
  assumes "\<And>n v. ids t n = Some v \<longleftrightarrow> holds t n v"
  shows "ids (applyCall t c) n = Some v \<longleftrightarrow> holds (applyCall t c) n v"
  using assms by (cases c) (auto simp: ids_setVNID holds_setVNID ids_unsetVNID holds_unsetVNID)

lemma lockstep_foldl:
  assumes "\<And>n v. ids t n = Some v \<longleftrightarrow> holds t n v"
  shows "ids (foldl applyCall t calls) n = Some v \<longleftrightarrow> holds (foldl applyCall t calls) n v"
  using assms
proof (induction calls arbitrary: t n v)
  case Nil
  then show ?case by simp
next
  case (Cons c calls)
  have "ids (foldl applyCall (applyCall t c) calls) n = Some v
          \<longleftrightarrow> holds (foldl applyCall (applyCall t c) calls) n v"
    by (rule Cons.IH) (rule lockstep_applyCall, rule Cons.prems)
  then show ?case by simp
qed

lemma lockstep_runCalls: "ids (runCalls calls) n = Some v \<longleftrightarrow> holds (runCalls calls) n v"
  unfolding runCalls_def
  by (rule lockstep_foldl) (simp add: newNodeVNIDMap_def holds_def)

lemma setVNID_fixpoint:
  assumes "ids t n = Some v" and "holds t n v"
  shows "setVNID t n v = t"
proof -
  from assms(2) obtain s where s: "namespaces t v = Some s" "n |\<in>| s"
    by (auto simp: holds_def split: option.splits)
  have i: "(ids t)(n \<mapsto> v) = ids t"
    using assms(1) by (rule map_upd_triv)
  have m: "(namespaces t)(v \<mapsto> s) = namespaces t"
    using s(1) by (rule map_upd_triv)
  have a: "finsert n s = s"
    using s(2) by auto
  have b: "s |\<subseteq>| {|n|} \<Longrightarrow> {|n|} = s"
    using s(2) by auto
  show ?thesis
    using assms(1) s(1)
    by (auto simp: setVNID_def removeNamespaceFromSet_def addNamespaceToSet_def Let_def
        i m a b)
qed

lemma setVNID_twice: "setVNID (setVNID t n v) n v = setVNID t n v"
  by (rule setVNID_fixpoint) (simp_all add: ids_setVNID holds_setVNID)

section \<open>The table's two indices\<close>

text \<open>
  C1. After any sequence of \<open>setVNID\<close> and \<open>unsetVNID\<close> calls run from the empty
  table, the forward and the reverse index agree: a namespace \<open>n\<close> whose lookup
  succeeds with \<open>v\<close> is listed by \<open>GetNamespaces v\<close>, and every namespace listed by
  \<open>GetNamespaces v\<close> is looked up successfully as \<open>v\<close>. The sequence is arbitrary, so
  the statement covers the table after each of its calls, re-assignments included.
\<close>

theorem vnid_indices_consistent:
  "(GetVNID (runCalls calls) n = (v, None) \<longrightarrow> inSlice n (GetNamespaces (runCalls calls) v)) \<and>
   (inSlice n (GetNamespaces (runCalls calls) v) \<longrightarrow> GetVNID (runCalls calls) n = (v, None))"
  by (simp add: GetVNID_found_iff inSlice_GetNamespaces lockstep_runCalls)

theorem vnid_indices_consistent_witness:
  "GetVNID (runCalls [SetVNID ''ns1'' 5, SetVNID ''ns2'' 5, SetVNID ''ns1'' 7, UnsetVNID ''ns2''])
     ''ns1'' = (7, None) \<and>
   inSlice ''ns1''
     (GetNamespaces
       (runCalls [SetVNID ''ns1'' 5, SetVNID ''ns2'' 5, SetVNID ''ns1'' 7, UnsetVNID ''ns2'']) 7) \<and>
   inSlice ''ns2'' (GetNamespaces (runCalls [SetVNID ''ns1'' 5, SetVNID ''ns2'' 5]) 5) \<and>
   GetVNID (runCalls [SetVNID ''ns1'' 5, SetVNID ''ns2'' 5]) ''ns2'' = (5, None)"
proof -
  let ?c = "[SetVNID ''ns1'' 5, SetVNID ''ns2'' 5, SetVNID ''ns1'' 7, UnsetVNID ''ns2'']"
  let ?d = "[SetVNID ''ns1'' 5, SetVNID ''ns2'' 5]"
  have g: "GetVNID (runCalls ?c) ''ns1'' = (7, None)"
    by (simp add: GetVNID_found_iff runCalls_def ids_setVNID ids_unsetVNID)
  from vnid_indices_consistent [of ?c "''ns1''" 7] g
  have 1: "inSlice ''ns1'' (GetNamespaces (runCalls ?c) 7)"
    by blast
  have h: "inSlice ''ns2'' (GetNamespaces (runCalls ?d) 5)"
    by (simp add: inSlice_GetNamespaces runCalls_def holds_setVNID)
  from vnid_indices_consistent [of ?d "''ns2''" 5] h
  have 2: "GetVNID (runCalls ?d) ''ns2'' = (5, None)"
    by blast
  from g 1 h 2 show ?thesis by blast
qed

text \<open>
  C6. \<open>setVNID\<close> is idempotent: a second call with the same namespace and the same
  VNID returns the very table the first call returned, so every \<open>GetVNID\<close> and every
  \<open>GetNamespaces\<close> answers as after one call. This holds from any table.
\<close>

theorem setVNID_idempotent:
  "setVNID (setVNID t n v) n v = setVNID t n v \<and>
   (\<forall>m. GetVNID (setVNID (setVNID t n v) n v) m = GetVNID (setVNID t n v) m) \<and>
   (\<forall>w. GetNamespaces (setVNID (setVNID t n v) n v) w = GetNamespaces (setVNID t n v) w)"
  by (simp add: setVNID_twice)

text \<open>
  C7. From any table, after \<open>setVNID ns1 5\<close> followed by \<open>setVNID ns1 7\<close> the
  lookup of \<open>ns1\<close> gives 7, \<open>ns1\<close> is not listed under 5, and it is listed under 7.
\<close>

theorem setVNID_reassign:
  "GetVNID (setVNID (setVNID t ''ns1'' 5) ''ns1'' 7) ''ns1'' = (7, None) \<and>
   \<not> inSlice ''ns1'' (GetNamespaces (setVNID (setVNID t ''ns1'' 5) ''ns1'' 7) 5) \<and>
   inSlice ''ns1'' (GetNamespaces (setVNID (setVNID t ''ns1'' 5) ''ns1'' 7) 7)"
  by (simp add: GetVNID_found_iff inSlice_GetNamespaces ids_setVNID holds_setVNID)

section \<open>Removing a namespace\<close>

lemma namespaces_unsetVNID_other:
  "ids t name = Some v \<Longrightarrow> w \<noteq> v \<Longrightarrow> namespaces (snd (unsetVNID t name)) w = namespaces t w"
  by (simp add: unsetVNID_def removeNamespaceFromSet_def Let_def split: option.splits)

lemma namespaces_unsetVNID_same:
  "ids t name = Some v \<Longrightarrow> namespaces t v = Some s \<Longrightarrow>
   namespaces (snd (unsetVNID t name)) v =
     (if s |-| {|name|} = {||} then None else Some (s |-| {|name|}))"
  by (simp add: unsetVNID_def removeNamespaceFromSet_def Let_def)

lemma only_member:
  assumes "GetNamespaces t v = Some [name]"
  shows "namespaces t v = Some {|name|}"
proof -
  from assms obtain s where s: "namespaces t v = Some s" "sorted_list_of_fset s = [name]"
    by (auto simp: GetNamespaces_def split: option.splits)
  have "fset_of_list (sorted_list_of_fset s) = s"
    by simp
  with s(2) have "s = {|name|}"
    by simp
  with s(1) show ?thesis by simp
qed

lemma only_member_reachable:
  assumes "GetNamespaces (runCalls calls) v = Some [name]"
  shows "ids (runCalls calls) name = Some v"
proof -
  have "holds (runCalls calls) name v"
    using only_member [OF assms] by (simp add: holds_def)
  then show ?thesis by (simp add: lockstep_runCalls)
qed

text \<open>
  C8. \<open>unsetVNID\<close> on a namespace without an entry fails with the not-found error
  (the one \<open>GetVNID\<close> gives) and returns the table as it was. On a namespace recorded
  with VNID \<open>v\<close> it returns \<open>v\<close> without error, deletes the forward entry, leaves
  the sets of all other VNIDs alone and takes the name out of the set of \<open>v\<close>; that set
  is dropped from the reverse index when nothing is left in it, so that when the name was
  its only member \<open>GetNamespaces v\<close> answers \<open>nil\<close> and not the listing of a set that
  is present and empty. On a table reached by calls of the two mutators it is enough
  that \<open>GetNamespaces v\<close> lists the name alone.
\<close>

theorem unsetVNID_result:
  "(ids t name = None \<longrightarrow>
      unsetVNID t name = ((0, Some (errNoNetid name)), t) \<and>
      fst (unsetVNID t name) = GetVNID t name) \<and>
   (ids t name = Some v \<longrightarrow>
      fst (unsetVNID t name) = (v, None) \<and>
      ids (snd (unsetVNID t name)) = (ids t)(name := None) \<and>
      \<not> inSlice name (GetNamespaces (snd (unsetVNID t name)) v) \<and>
      (\<forall>w. w \<noteq> v \<longrightarrow> namespaces (snd (unsetVNID t name)) w = namespaces t w) \<and>
      (\<forall>s. namespaces t v = Some s \<longrightarrow>
         namespaces (snd (unsetVNID t name)) v =
           (if s |-| {|name|} = {||} then None else Some (s |-| {|name|}))) \<and>
      (namespaces t v = Some {|name|} \<longrightarrow>
         namespaces (snd (unsetVNID t name)) v = None \<and>
         GetNamespaces (snd (unsetVNID t name)) v = None)) \<and>
   (GetNamespaces (runCalls calls) v = Some [name] \<longrightarrow>
      GetNamespaces (snd (unsetVNID (runCalls calls) name)) v = None)"
proof (intro conjI impI allI)
  assume "ids t name = None"
  then show "unsetVNID t name = ((0, Some (errNoNetid name)), t)"
    by (simp add: unsetVNID_def)
  then show "fst (unsetVNID t name) = GetVNID t name"
    using \<open>ids t name = None\<close> by (simp add: GetVNID_def)
next
  assume v: "ids t name = Some v"
  then show "fst (unsetVNID t name) = (v, None)"
    by (simp add: unsetVNID_def Let_def)
  show "ids (snd (unsetVNID t name)) = (ids t)(name := None)"
    by (rule ids_unsetVNID)
  show "\<not> inSlice name (GetNamespaces (snd (unsetVNID t name)) v)"
    using v by (simp add: inSlice_GetNamespaces holds_unsetVNID)
  show "namespaces (snd (unsetVNID t name)) w = namespaces t w" if "w \<noteq> v" for w
    using v that by (rule namespaces_unsetVNID_other)
  show "namespaces (snd (unsetVNID t name)) v =
          (if s |-| {|name|} = {||} then None else Some (s |-| {|name|}))"
    if "namespaces t v = Some s" for s
    using v that by (rule namespaces_unsetVNID_same)
  assume only: "namespaces t v = Some {|name|}"
  show n: "namespaces (snd (unsetVNID t name)) v = None"
    using namespaces_unsetVNID_same [OF v only] by simp
  show "GetNamespaces (snd (unsetVNID t name)) v = None"
    using n by (simp add: GetNamespaces_def)
next
  assume only: "GetNamespaces (runCalls calls) v = Some [name]"
  have "namespaces (snd (unsetVNID (runCalls calls) name)) v = None"
    using namespaces_unsetVNID_same [OF only_member_reachable [OF only] only_member [OF only]]
    by simp
  then show "GetNamespaces (snd (unsetVNID (runCalls calls) name)) v = None"
    by (simp add: GetNamespaces_def)
qed

text \<open>
  Both cases at a concrete table: the empty one, and the one where \<open>ns1\<close> is the only
  namespace of VNID 5, built directly and as the result of one call.
\<close>

theorem unsetVNID_result_witness:
  "unsetVNID newNodeVNIDMap ''ns1'' = ((0, Some (errNoNetid ''ns1'')), newNodeVNIDMap) \<and>
   fst (unsetVNID (setVNID newNodeVNIDMap ''ns1'' 5) ''ns1'') = (5, None) \<and>
   GetNamespaces (setVNID newNodeVNIDMap ''ns1'' 5) 5 = Some [''ns1''] \<and>
   GetNamespaces (snd (unsetVNID (setVNID newNodeVNIDMap ''ns1'' 5) ''ns1'')) 5 = None \<and>
   GetVNID (snd (unsetVNID (setVNID newNodeVNIDMap ''ns1'' 5) ''ns1'')) ''ns1''
     = (0, Some (errNoNetid ''ns1'')) \<and>
   GetNamespaces (runCalls [SetVNID ''ns1'' 5]) 5 = Some [''ns1''] \<and>
   GetNamespaces (snd (unsetVNID (runCalls [SetVNID ''ns1'' 5]) ''ns1'')) 5 = None"
proof -
  let ?t = "setVNID newNodeVNIDMap ''ns1'' 5"
  have a: "ids newNodeVNIDMap ''ns1'' = None"
    by (simp add: newNodeVNIDMap_def)
  have b: "ids ?t ''ns1'' = Some 5"
    by (simp add: ids_setVNID)
  have c: "namespaces ?t 5 = Some {|''ns1''|}"
    by (simp add: setVNID_def newNodeVNIDMap_def addNamespaceToSet_def)
  have d: "GetNamespaces ?t 5 = Some [''ns1'']"
    by (simp add: GetNamespaces_def c sorted_list_of_fset.rep_eq)
  have e: "GetNamespaces (runCalls [SetVNID ''ns1'' 5]) 5 = Some [''ns1'']"
    by (simp add: runCalls_def d)
  from unsetVNID_result [of newNodeVNIDMap "''ns1''" 0] a
  have 1: "unsetVNID newNodeVNIDMap ''ns1'' = ((0, Some (errNoNetid ''ns1'')), newNodeVNIDMap)"
    by blast
  from unsetVNID_result [of ?t "''ns1''" 5] b c
  have 2: "fst (unsetVNID ?t ''ns1'') = (5, None)"
    and 3: "GetNamespaces (snd (unsetVNID ?t ''ns1'')) 5 = None"
    and 4: "ids (snd (unsetVNID ?t ''ns1'')) = (ids ?t)(''ns1'' := None)"
    by blast+
  have 5: "GetVNID (snd (unsetVNID ?t ''ns1'')) ''ns1'' = (0, Some (errNoNetid ''ns1''))"
    by (simp add: GetVNID_def 4)
  from unsetVNID_result [of newNodeVNIDMap "''ns1''" 5 "[SetVNID ''ns1'' 5]"] e
  have 6: "GetNamespaces (snd (unsetVNID (runCalls [SetVNID ''ns1'' 5]) ''ns1'')) 5 = None"
    by blast
  from 1 2 3 5 d e 6 show ?thesis by blast
qed

section \<open>Lookups, with and without retries\<close>

lemma backoffLoop_attempts:
  "attempts (backoffLoop factor condition k i duration zs s) \<le> i + k"
proof (induction k arbitrary: i duration zs s)
  case 0
  show ?case by simp
next
  case (Suc k)
  obtain ok err s' where c: "condition i s = ((ok, err), s')"
    by (metis surj_pair)
  show ?case
  proof (cases "err \<noteq> None \<or> ok")
    case True
    then show ?thesis using c by (simp add: Let_def)
  next
    case False
    let ?d = "if i \<noteq> 0 then nat \<lfloor>of_nat duration * factor\<rfloor> else duration"
    let ?zs = "if i \<noteq> 0 then zs @ [duration] else zs"
    have "attempts (backoffLoop factor condition k (Suc i) ?d ?zs s') \<le> Suc i + k"
      by (rule Suc.IH)
    then show ?thesis using c False by (simp add: Let_def)
  qed
qed

lemma five: "(5::nat) = Suc (Suc (Suc (Suc (Suc 0))))"
  by simp

lemma WaitAndGetVNID_run_unfold:
  "WaitAndGetVNID_run vmapAt name =
     backoffLoop (3 / 2)
       (\<lambda>i vnid. (let (vnid', err) = GetVNID (vmapAt i) name in ((err = None, None), vnid')))
       (Suc (Suc (Suc (Suc (Suc 0))))) 0 (100 * millisecond) [] 0"
  by (simp add: WaitAndGetVNID_run_def ExponentialBackoff_def five [symmetric])

lemma WaitAndGetVNID_run_attempts: "attempts (WaitAndGetVNID_run vmapAt name) \<le> 5"
  unfolding WaitAndGetVNID_run_def ExponentialBackoff_def
  by (rule order_trans [OF backoffLoop_attempts]) simp

lemma WaitAndGetVNID_run_first:
  "ids (vmapAt 0) name = Some v \<Longrightarrow>
   WaitAndGetVNID_run vmapAt name = \<lparr>outcome = None, slept = [], attempts = 1, final = v\<rparr>"
  by (simp add: WaitAndGetVNID_run_unfold GetVNID_def)

lemma WaitAndGetVNID_run_never:
  assumes "\<forall>i<5. ids (vmapAt i) name = None"
  shows "WaitAndGetVNID_run vmapAt name =
           \<lparr>outcome = Some ErrWaitTimeout,
            slept = [100 * millisecond, 150 * millisecond, 225 * millisecond, 337500000],
            attempts = 5, final = 0\<rparr>"
proof -
  have 0: "ids (vmapAt 0) name = None" and 1: "ids (vmapAt (Suc 0)) name = None"
    and 2: "ids (vmapAt (Suc (Suc 0))) name = None"
    and 3: "ids (vmapAt (Suc (Suc (Suc 0)))) name = None"
    and 4: "ids (vmapAt (Suc (Suc (Suc (Suc 0))))) name = None"
    using assms by simp_all
  show ?thesis
    by (simp add: WaitAndGetVNID_run_unfold GetVNID_def millisecond_def 0 1 2 3 4)
qed


lemma WaitAndGetVNID_run_sleep:
  "sum_list (slept (WaitAndGetVNID_run vmapAt name)) \<le> 812500000"
  by (simp add: WaitAndGetVNID_run_unfold GetVNID_def millisecond_def Let_def
      split: option.splits)

text \<open>
  C5. For a name that has no entry, \<open>GetVNID\<close> returns the not-found error next to the
  number 0. When the name is absent at each of the five attempts, \<open>WaitAndGetVNID\<close>
  makes exactly five attempts, sleeps 100 ms, 150 ms, 225 ms and 337.5 ms between them
  (the delays are in nanoseconds) and returns the same not-found error; whatever the
  table does, it makes at most five attempts and sleeps at most 812.5 ms in all, and
  being a total function it returns.
  For a name that has an entry both functions return its VNID without error, and
  \<open>WaitAndGetVNID\<close> does so at the first attempt, without sleeping.
\<close>

theorem lookup_of_unknown_name_fails:
  "(ids t name = None \<longrightarrow> GetVNID t name = (0, Some (errNoNetid name))) \<and>
   ((\<forall>i<5. ids (vmapAt i) name = None) \<longrightarrow>
      WaitAndGetVNID vmapAt name = (0, Some (errNoNetid name)) \<and>
      attempts (WaitAndGetVNID_run vmapAt name) = 5 \<and>
      slept (WaitAndGetVNID_run vmapAt name) = [100000000, 150000000, 225000000, 337500000]) \<and>
   attempts (WaitAndGetVNID_run vmapAt name) \<le> 5 \<and>
   sum_list (slept (WaitAndGetVNID_run vmapAt name)) \<le> 812500000 \<and>
   (ids t name = Some v \<longrightarrow>
      GetVNID t name = (v, None) \<and> WaitAndGetVNID (\<lambda>i. t) name = (v, None)) \<and>
   (ids (vmapAt 0) name = Some v \<longrightarrow>
      WaitAndGetVNID vmapAt name = (v, None) \<and>
      attempts (WaitAndGetVNID_run vmapAt name) = 1 \<and>
      slept (WaitAndGetVNID_run vmapAt name) = [])"
proof (intro conjI impI)
  assume "ids t name = None"
  then show "GetVNID t name = (0, Some (errNoNetid name))"
    by (simp add: GetVNID_def)
next
  assume "\<forall>i<5. ids (vmapAt i) name = None"
  then have r: "WaitAndGetVNID_run vmapAt name =
      \<lparr>outcome = Some ErrWaitTimeout,
       slept = [100 * millisecond, 150 * millisecond, 225 * millisecond, 337500000],
       attempts = 5, final = 0\<rparr>"
    by (rule WaitAndGetVNID_run_never)
  show "WaitAndGetVNID vmapAt name = (0, Some (errNoNetid name))"
    by (simp add: WaitAndGetVNID_def r)
  show "attempts (WaitAndGetVNID_run vmapAt name) = 5"
    by (simp add: r)
  show "slept (WaitAndGetVNID_run vmapAt name) = [100000000, 150000000, 225000000, 337500000]"
    by (simp add: r millisecond_def)
next
  show "attempts (WaitAndGetVNID_run vmapAt name) \<le> 5"
    by (rule WaitAndGetVNID_run_attempts)
next
  show "sum_list (slept (WaitAndGetVNID_run vmapAt name)) \<le> 812500000"
    by (rule WaitAndGetVNID_run_sleep)
next
  assume v: "ids t name = Some v"
  then show "GetVNID t name = (v, None)"
    by (simp add: GetVNID_def)
  show "WaitAndGetVNID (\<lambda>i. t) name = (v, None)"
    using v by (simp add: WaitAndGetVNID_def WaitAndGetVNID_run_first)
next
  assume v: "ids (vmapAt 0) name = Some v"
  show "WaitAndGetVNID vmapAt name = (v, None)"
    using v by (simp add: WaitAndGetVNID_def WaitAndGetVNID_run_first)
  show "attempts (WaitAndGetVNID_run vmapAt name) = 1"
    using v by (simp add: WaitAndGetVNID_run_first)
  show "slept (WaitAndGetVNID_run vmapAt name) = []"
    using v by (simp add: WaitAndGetVNID_run_first)
qed

text \<open>
  The absent and the present case at concrete tables, and a table that gets the entry
  while the caller sleeps before the third attempt.
\<close>

theorem lookup_of_unknown_name_fails_witness:
  "GetVNID newNodeVNIDMap ''nonexistent'' = (0, Some (errNoNetid ''nonexistent'')) \<and>
   WaitAndGetVNID (\<lambda>i. newNodeVNIDMap) ''nonexistent'' = (0, Some (errNoNetid ''nonexistent'')) \<and>
   attempts (WaitAndGetVNID_run (\<lambda>i. newNodeVNIDMap) ''nonexistent'') = 5 \<and>
   GetVNID (setVNID newNodeVNIDMap ''ns1'' 5) ''ns1'' = (5, None) \<and>
   WaitAndGetVNID (\<lambda>i. setVNID newNodeVNIDMap ''ns1'' 5) ''ns1'' = (5, None) \<and>
   WaitAndGetVNID (\<lambda>i. if i < 2 then newNodeVNIDMap else setVNID newNodeVNIDMap ''ns1'' 5) ''ns1''
     = (5, None)"
proof -
  have a: "ids newNodeVNIDMap ''nonexistent'' = None"
    by (simp add: newNodeVNIDMap_def)
  have b: "\<forall>i<5. ids ((\<lambda>i. newNodeVNIDMap) i) ''nonexistent'' = None"
    by (simp add: newNodeVNIDMap_def)
  have c: "ids (setVNID newNodeVNIDMap ''ns1'' 5) ''ns1'' = Some 5"
    by (simp add: ids_setVNID)
  have d: "WaitAndGetVNID
             (\<lambda>i. if i < 2 then newNodeVNIDMap else setVNID newNodeVNIDMap ''ns1'' 5) ''ns1''
           = (5, None)"
    by (simp add: WaitAndGetVNID_def WaitAndGetVNID_run_unfold GetVNID_def ids_setVNID
        newNodeVNIDMap_def millisecond_def)
  from lookup_of_unknown_name_fails
         [of newNodeVNIDMap "''nonexistent''" "\<lambda>i. newNodeVNIDMap" 0] a b
  have 1: "GetVNID newNodeVNIDMap ''nonexistent'' = (0, Some (errNoNetid ''nonexistent''))"
    and 2: "WaitAndGetVNID (\<lambda>i. newNodeVNIDMap) ''nonexistent''
              = (0, Some (errNoNetid ''nonexistent''))"
    and 3: "attempts (WaitAndGetVNID_run (\<lambda>i. newNodeVNIDMap) ''nonexistent'') = 5"
    by simp_all
  from lookup_of_unknown_name_fails
         [of "setVNID newNodeVNIDMap ''ns1'' 5" "''ns1''"
             "\<lambda>i. setVNID newNodeVNIDMap ''ns1'' 5" 5] c
  have 4: "GetVNID (setVNID newNodeVNIDMap ''ns1'' 5) ''ns1'' = (5, None)"
    and 5: "WaitAndGetVNID (\<lambda>i. setVNID newNodeVNIDMap ''ns1'' 5) ''ns1'' = (5, None)"
    by simp_all
  from 1 2 3 4 5 d show ?thesis by simp
qed

section \<open>Namespace events\<close>

lemma handle_added_same:
  "ids (vnids node) a = Some v \<Longrightarrow> handleNetnsEvent node (addedEvent a v) = node"
  by (simp add: handleNetnsEvent_def addedEvent_def GetVNID_def Let_def)

lemma handle_added_changed:
  "ids (vnids node) a \<noteq> Some v \<Longrightarrow>
   handleNetnsEvent node (addedEvent a v) =
     node\<lparr>vnids := setVNID (vnids node) a v,
          passes := passes node @
            [\<lparr>pnNamespace = a, pnOldNetID = fst (GetVNID (vnids node) a), pnNetID = v,
              pnVnids = setVNID (vnids node) a v\<rparr>]\<rparr>"
  by (simp add: handleNetnsEvent_def addedEvent_def GetVNID_def updatePodNetwork_def Let_def
      split: option.splits)

lemma handle_removed:
  "handleNetnsEvent node (removedEvent a w) =
     node\<lparr>passes := passes node @
            [\<lparr>pnNamespace = a, pnOldNetID = w, pnNetID = GlobalVNID, pnVnids = vnids node\<rparr>],
          vnids := snd (unsetVNID (vnids node) a)\<rparr>"
  by (simp add: handleNetnsEvent_def removedEvent_def updatePodNetwork_def Let_def)

text \<open>
  C3. An Added event that carries the VNID the table already records for the namespace
  leaves the node as it is: no pass, no change of the table. Hence a batch with the same
  Added event twice ends in the very state the event reaches when delivered once, and
  when the first of the two is not itself a duplicate the batch runs exactly one pass
  and updates the table once.
\<close>

theorem duplicate_added_is_noop:
  "(ids (vnids node) a = Some v \<longrightarrow> handleNetnsEvent node (addedEvent a v) = node) \<and>
   nodeHandleNetnsEvent node [addedEvent a v, addedEvent a v]
     = nodeHandleNetnsEvent node [addedEvent a v] \<and>
   (ids (vnids node) a \<noteq> Some v \<longrightarrow>
      passes (nodeHandleNetnsEvent node [addedEvent a v, addedEvent a v]) =
        passes node @
          [\<lparr>pnNamespace = a, pnOldNetID = fst (GetVNID (vnids node) a), pnNetID = v,
            pnVnids = setVNID (vnids node) a v\<rparr>] \<and>
      vnids (nodeHandleNetnsEvent node [addedEvent a v, addedEvent a v])
        = setVNID (vnids node) a v)"
proof -
  have after: "ids (vnids (handleNetnsEvent node (addedEvent a v))) a = Some v"
    by (cases "ids (vnids node) a = Some v")
       (simp_all add: handle_added_same handle_added_changed ids_setVNID)
  have twice: "handleNetnsEvent (handleNetnsEvent node (addedEvent a v)) (addedEvent a v)
                 = handleNetnsEvent node (addedEvent a v)"
    using after by (rule handle_added_same)
  have batch: "nodeHandleNetnsEvent node [addedEvent a v, addedEvent a v]
                 = handleNetnsEvent node (addedEvent a v)"
    by (simp add: twice)
  have single: "nodeHandleNetnsEvent node [addedEvent a v] = handleNetnsEvent node (addedEvent a v)"
    by simp
  show ?thesis
    unfolding batch single
    by (simp add: handle_added_same handle_added_changed)
qed

text \<open>
  \<open>Added(a, 3)\<close> twice on a node that has seen nothing: one pass, and the second
  event changes nothing.
\<close>

theorem duplicate_added_is_noop_witness:
  "passes (nodeHandleNetnsEvent freshNode [addedEvent ''a'' 3, addedEvent ''a'' 3]) =
     [\<lparr>pnNamespace = ''a'', pnOldNetID = 0, pnNetID = 3,
       pnVnids = setVNID newNodeVNIDMap ''a'' 3\<rparr>] \<and>
   vnids (nodeHandleNetnsEvent freshNode [addedEvent ''a'' 3, addedEvent ''a'' 3])
     = setVNID newNodeVNIDMap ''a'' 3 \<and>
   handleNetnsEvent (handleNetnsEvent freshNode (addedEvent ''a'' 3)) (addedEvent ''a'' 3)
     = handleNetnsEvent freshNode (addedEvent ''a'' 3)"
proof -
  let ?once = "handleNetnsEvent freshNode (addedEvent ''a'' 3)"
  have a: "ids (vnids freshNode) ''a'' \<noteq> Some 3"
    by (simp add: freshNode_def newNodeVNIDMap_def)
  have b: "ids (vnids ?once) ''a'' = Some 3"
    by (simp add: handle_added_changed [OF a] ids_setVNID)
  have c: "fst (GetVNID newNodeVNIDMap ''a'') = 0" "vnids freshNode = newNodeVNIDMap"
    "passes freshNode = []"
    by (simp_all add: freshNode_def newNodeVNIDMap_def GetVNID_def)
  from duplicate_added_is_noop [of freshNode "''a''" 3] a
  have "passes (nodeHandleNetnsEvent freshNode [addedEvent ''a'' 3, addedEvent ''a'' 3]) =
          passes freshNode @
            [\<lparr>pnNamespace = ''a'', pnOldNetID = fst (GetVNID (vnids freshNode) ''a''), pnNetID = 3,
              pnVnids = setVNID (vnids freshNode) ''a'' 3\<rparr>] \<and>
        vnids (nodeHandleNetnsEvent freshNode [addedEvent ''a'' 3, addedEvent ''a'' 3])
          = setVNID (vnids freshNode) ''a'' 3"
    by blast
  then have 1: "passes (nodeHandleNetnsEvent freshNode [addedEvent ''a'' 3, addedEvent ''a'' 3]) =
     [\<lparr>pnNamespace = ''a'', pnOldNetID = 0, pnNetID = 3,
       pnVnids = setVNID newNodeVNIDMap ''a'' 3\<rparr>] \<and>
     vnids (nodeHandleNetnsEvent freshNode [addedEvent ''a'' 3, addedEvent ''a'' 3])
       = setVNID newNodeVNIDMap ''a'' 3"
    by (simp add: c del: nodeHandleNetnsEvent.simps)
  from duplicate_added_is_noop [of ?once "''a''" 3] b
  have 2: "handleNetnsEvent ?once (addedEvent ''a'' 3) = ?once"
    by blast
  from 1 2 show ?thesis by blast
qed

text \<open>
  C2, as the code has it. On a Removed event the handler runs the pass with the VNID the
  event carries as the old VNID (it does not look the namespace up) and the global VNID
  as the new one; the pass sees the table as it was before the event, and only then is
  the entry removed, so that afterwards the lookup of the namespace fails. When the event
  carries the VNID the table records, the old VNID of the pass is the current VNID of
  the namespace and the entry is still found during the pass. After the batch
  \<open>Added(a, 1), Removed(a, 1)\<close> the table has no entry for \<open>a\<close>, and the pass of the
  removal ran with old VNID 1, new VNID 0, on a table that still maps \<open>a\<close> to 1.
\<close>

theorem removed_pass_uses_event_vnid:
  "handleNetnsEvent node (removedEvent a w) =
     node\<lparr>passes := passes node @
            [\<lparr>pnNamespace = a, pnOldNetID = w, pnNetID = GlobalVNID, pnVnids = vnids node\<rparr>],
          vnids := snd (unsetVNID (vnids node) a)\<rparr> \<and>
   GetVNID (vnids (handleNetnsEvent node (removedEvent a w))) a = (0, Some (errNoNetid a)) \<and>
   (ids (vnids node) a = Some w \<longrightarrow>
      pnOldNetID (last (passes (handleNetnsEvent node (removedEvent a w))))
        = fst (GetVNID (vnids node) a) \<and>
      GetVNID (pnVnids (last (passes (handleNetnsEvent node (removedEvent a w))))) a
        = (w, None)) \<and>
   ids (vnids (nodeHandleNetnsEvent node [addedEvent a 1, removedEvent a 1])) a = None \<and>
   pnOldNetID (last (passes (nodeHandleNetnsEvent node [addedEvent a 1, removedEvent a 1]))) = 1 \<and>
   pnNetID (last (passes (nodeHandleNetnsEvent node [addedEvent a 1, removedEvent a 1])))
     = GlobalVNID \<and>
   GetVNID (pnVnids (last (passes (nodeHandleNetnsEvent node [addedEvent a 1, removedEvent a 1]))))
     a = (1, None)"
proof -
  have after: "ids (vnids (handleNetnsEvent node (addedEvent a 1))) a = Some 1"
    by (cases "ids (vnids node) a = Some 1")
       (simp_all add: handle_added_same handle_added_changed ids_setVNID)
  show ?thesis
    by (simp add: handle_removed ids_unsetVNID GetVNID_def after)
qed

text \<open>
  A Removed event that carries the recorded VNID, and the batch from a fresh node.
\<close>

theorem removed_pass_uses_event_vnid_witness:
  "pnOldNetID (last (passes (handleNetnsEvent
      \<lparr>vnids = setVNID newNodeVNIDMap ''a'' 1, passes = []\<rparr> (removedEvent ''a'' 1)))) = 1 \<and>
   GetVNID (pnVnids (last (passes (handleNetnsEvent
      \<lparr>vnids = setVNID newNodeVNIDMap ''a'' 1, passes = []\<rparr> (removedEvent ''a'' 1))))) ''a''
     = (1, None) \<and>
   ids (vnids (nodeHandleNetnsEvent freshNode [addedEvent ''a'' 1, removedEvent ''a'' 1])) ''a''
     = None"
proof -
  let ?n = "\<lparr>vnids = setVNID newNodeVNIDMap ''a'' 1, passes = []\<rparr>"
  have a: "ids (vnids ?n) ''a'' = Some 1"
    by (simp add: ids_setVNID)
  have g: "fst (GetVNID (vnids ?n) ''a'') = 1"
    by (simp add: GetVNID_def ids_setVNID)
  from removed_pass_uses_event_vnid [of ?n "''a''" 1] a
  have "pnOldNetID (last (passes (handleNetnsEvent ?n (removedEvent ''a'' 1))))
          = fst (GetVNID (vnids ?n) ''a'') \<and>
        GetVNID (pnVnids (last (passes (handleNetnsEvent ?n (removedEvent ''a'' 1))))) ''a''
          = (1, None)"
    by blast
  then have 1: "pnOldNetID (last (passes (handleNetnsEvent ?n (removedEvent ''a'' 1)))) = 1 \<and>
        GetVNID (pnVnids (last (passes (handleNetnsEvent ?n (removedEvent ''a'' 1))))) ''a''
          = (1, None)"
    by (simp only: g)
  from removed_pass_uses_event_vnid [of freshNode "''a''" 1]
  have 2: "ids (vnids (nodeHandleNetnsEvent freshNode [addedEvent ''a'' 1, removedEvent ''a'' 1]))
             ''a'' = None"
    by blast
  from 1 2 show ?thesis by blast
qed

text \<open>
  C2, as written, fails: the batch \<open>Added(a, 1), Removed(a)\<close> whose Removed event names
  the namespace and carries no VNID (the field is 0) runs the pass of the removal with
  old VNID 0, while the table the pass sees maps \<open>a\<close> to 1.
\<close>

theorem removed_pass_old_vnid_counterexample:
  "pnOldNetID (last (passes
      (nodeHandleNetnsEvent freshNode [addedEvent ''a'' 1, removedEvent ''a'' 0]))) = 0 \<and>
   GetVNID (pnVnids (last (passes
      (nodeHandleNetnsEvent freshNode [addedEvent ''a'' 1, removedEvent ''a'' 0])))) ''a''
     = (1, None)"
  by (simp add: freshNode_def handle_removed handle_added_changed newNodeVNIDMap_def
      GetVNID_def ids_setVNID)

text \<open>
  C9. When an Added event names a namespace without an entry, the old VNID handed to
  the pass is 0, the number \<open>GetVNID\<close> returns next to its error, and 0 is also the
  global VNID. So the arguments of the pass are the same whether the namespace was
  unknown or was recorded with the global VNID.
\<close>

theorem added_unknown_passes_zero:
  "(ids (vnids node) a = None \<longrightarrow>
      handleNetnsEvent node (addedEvent a v) =
        node\<lparr>vnids := setVNID (vnids node) a v,
             passes := passes node @
               [\<lparr>pnNamespace = a, pnOldNetID = 0, pnNetID = v,
                 pnVnids = setVNID (vnids node) a v\<rparr>]\<rparr>) \<and>
   GlobalVNID = 0 \<and>
   (ids (vnids node) a = None \<and> ids (vnids node') a = Some GlobalVNID \<and> v \<noteq> GlobalVNID \<longrightarrow>
      pnNamespace (last (passes (handleNetnsEvent node (addedEvent a v))))
        = pnNamespace (last (passes (handleNetnsEvent node' (addedEvent a v)))) \<and>
      pnOldNetID (last (passes (handleNetnsEvent node (addedEvent a v))))
        = pnOldNetID (last (passes (handleNetnsEvent node' (addedEvent a v)))) \<and>
      pnNetID (last (passes (handleNetnsEvent node (addedEvent a v))))
        = pnNetID (last (passes (handleNetnsEvent node' (addedEvent a v)))))"
  by (auto simp: handle_added_changed GetVNID_def GlobalVNID_def)

text \<open>
  An unknown namespace and one recorded with VNID 0, each receiving \<open>Added(a, 4)\<close>.
\<close>

theorem added_unknown_passes_zero_witness:
  "pnOldNetID (last (passes (handleNetnsEvent freshNode (addedEvent ''a'' 4)))) = 0 \<and>
   pnOldNetID (last (passes (handleNetnsEvent
      \<lparr>vnids = setVNID newNodeVNIDMap ''a'' 0, passes = []\<rparr> (addedEvent ''a'' 4)))) = 0"
proof -
  let ?n = "\<lparr>vnids = setVNID newNodeVNIDMap ''a'' 0, passes = []\<rparr>"
  have a: "ids (vnids freshNode) ''a'' = None"
    by (simp add: freshNode_def newNodeVNIDMap_def)
  have b: "ids (vnids ?n) ''a'' = Some GlobalVNID"
    by (simp add: ids_setVNID GlobalVNID_def)
  have c: "(4::uint32) \<noteq> GlobalVNID"
    by (simp add: GlobalVNID_def)
  from added_unknown_passes_zero [of freshNode "''a''" 4 ?n] a
  have 1: "pnOldNetID (last (passes (handleNetnsEvent freshNode (addedEvent ''a'' 4)))) = 0"
    by simp
  from added_unknown_passes_zero [of freshNode "''a''" 4 ?n] a b c
  have "pnOldNetID (last (passes (handleNetnsEvent freshNode (addedEvent ''a'' 4))))
        = pnOldNetID (last (passes (handleNetnsEvent ?n (addedEvent ''a'' 4))))"
    by blast
  with 1 show ?thesis by simp
qed

section \<open>Service deltas\<close>

lemma portsChanged_iff:
  "portsChanged is old new \<longleftrightarrow>
     (\<exists>i \<in> set is. Protocol (old ! i) \<noteq> Protocol (new ! i) \<or> Port (old ! i) \<noteq> Port (new ! i))"
  by (induction "is") auto

lemma isServiceChanged_iff:
  "\<not> isServiceChanged oldsvc newsvc \<longleftrightarrow>
     length (Ports oldsvc) = length (Ports newsvc) \<and>
     (\<forall>i<length (Ports oldsvc).
        Protocol (Ports oldsvc ! i) = Protocol (Ports newsvc ! i) \<and>
        Port (Ports oldsvc ! i) = Port (Ports newsvc ! i))"
  by (auto simp: isServiceChanged_def portsChanged_iff)

lemma handle_unchanged:
  "IsServiceIPSet serv \<Longrightarrow> dtype \<noteq> Deleted \<Longrightarrow> services st (UID serv) = Some oldsvc \<Longrightarrow>
   \<not> isServiceChanged oldsvc serv \<Longrightarrow>
   handleServiceDelta node vmapAt dtype serv st = (None, st)"
  by (cases dtype) (simp_all add: handleServiceDelta_def updateService_def)

lemma handle_changed:
  "IsServiceIPSet serv \<Longrightarrow> dtype \<noteq> Deleted \<Longrightarrow> services st (UID serv) = Some oldsvc \<Longrightarrow>
   isServiceChanged oldsvc serv \<Longrightarrow>
   handleServiceDelta node vmapAt dtype serv st =
     addService node vmapAt dtype serv (st\<lparr>issued := issued st @ [CallDeleteServiceRules oldsvc]\<rparr>)"
  by (cases dtype) (simp_all add: handleServiceDelta_def updateService_def)

lemma handle_new:
  "IsServiceIPSet serv \<Longrightarrow> dtype \<noteq> Deleted \<Longrightarrow> services st (UID serv) = None \<Longrightarrow>
   handleServiceDelta node vmapAt dtype serv st = addService node vmapAt dtype serv st"
  by (cases dtype) (simp_all add: handleServiceDelta_def updateService_def)

lemma addService_lookup_failed:
  "WaitAndGetVNID vmapAt (Namespace serv) = (x, Some e) \<Longrightarrow>
   addService node vmapAt dtype serv st = (Some (errSkipped dtype e), st)"
  by (simp add: addService_def)

lemma addService_add_failed:
  "WaitAndGetVNID vmapAt (Namespace serv) = (netid, None) \<Longrightarrow>
   AddServiceRules node serv netid = Some e \<Longrightarrow>
   addService node vmapAt dtype serv st =
     (Some e, st\<lparr>issued := issued st @ [CallAddServiceRules serv netid]\<rparr>)"
  by (simp add: addService_def Let_def)

lemma addService_ok:
  "WaitAndGetVNID vmapAt (Namespace serv) = (netid, None) \<Longrightarrow>
   AddServiceRules node serv netid = None \<Longrightarrow>
   addService node vmapAt dtype serv st =
     (None, st\<lparr>issued := issued st @ [CallAddServiceRules serv netid],
              services := (services st)(UID serv \<mapsto> serv)\<rparr>)"
  by (simp add: addService_def Let_def)

lemma addService_cases:
  obtains (lookup) x e where "WaitAndGetVNID vmapAt (Namespace serv) = (x, Some e)"
      "addService node vmapAt dtype serv st = (Some (errSkipped dtype e), st)"
  | (add) netid e where "WaitAndGetVNID vmapAt (Namespace serv) = (netid, None)"
      "AddServiceRules node serv netid = Some e"
      "addService node vmapAt dtype serv st =
         (Some e, st\<lparr>issued := issued st @ [CallAddServiceRules serv netid]\<rparr>)"
  | (ok) netid where "WaitAndGetVNID vmapAt (Namespace serv) = (netid, None)"
      "AddServiceRules node serv netid = None"
      "addService node vmapAt dtype serv st =
         (None, st\<lparr>issued := issued st @ [CallAddServiceRules serv netid],
                  services := (services st)(UID serv \<mapsto> serv)\<rparr>)"
proof -
  obtain netid err where w: "WaitAndGetVNID vmapAt (Namespace serv) = (netid, err)"
    by (metis surj_pair)
  show thesis
  proof (cases err)
    case (Some e)
    with w lookup addService_lookup_failed show ?thesis by blast
  next
    case None
    show ?thesis
    proof (cases "AddServiceRules node serv netid")
      case (Some e)
      with w None add addService_add_failed show ?thesis by blast
    next
      case n: None
      with w None ok addService_ok show ?thesis by blast
    qed
  qed
qed


text \<open>
  C4, as the code has it. \<open>isServiceChanged\<close> answers "unchanged" exactly when the
  two port lists have the same length and agree, position by position, in protocol and
  port number. In the watcher, for a service with a cluster IP that is in the cache and
  a delta other than \<open>Deleted\<close>: an unchanged definition is a no-op (no call is
  issued, the cache stays, no error); a changed one issues the deletion of the rules of
  the cached definition, followed by the addition of the rules of the new one when the
  namespace's VNID is resolved, and by nothing when it is not.
\<close>

theorem service_change_detection:
  "((\<not> isServiceChanged oldsvc serv) =
      (length (Ports oldsvc) = length (Ports serv) \<and>
       (\<forall>i<length (Ports oldsvc).
          Protocol (Ports oldsvc ! i) = Protocol (Ports serv ! i) \<and>
          Port (Ports oldsvc ! i) = Port (Ports serv ! i)))) \<and>
   (IsServiceIPSet serv \<and> dtype \<noteq> Deleted \<and> services st (UID serv) = Some oldsvc \<longrightarrow>
      (\<not> isServiceChanged oldsvc serv \<longrightarrow>
         handleServiceDelta node vmapAt dtype serv st = (None, st)) \<and>
      (isServiceChanged oldsvc serv \<longrightarrow>
         (\<forall>netid. WaitAndGetVNID vmapAt (Namespace serv) = (netid, None) \<longrightarrow>
            issued (snd (handleServiceDelta node vmapAt dtype serv st)) =
              issued st @ [CallDeleteServiceRules oldsvc, CallAddServiceRules serv netid]) \<and>
         (\<forall>x e. WaitAndGetVNID vmapAt (Namespace serv) = (x, Some e) \<longrightarrow>
            issued (snd (handleServiceDelta node vmapAt dtype serv st)) =
              issued st @ [CallDeleteServiceRules oldsvc])))"
proof (intro conjI impI allI)
  show "(\<not> isServiceChanged oldsvc serv) =
      (length (Ports oldsvc) = length (Ports serv) \<and>
       (\<forall>i<length (Ports oldsvc).
          Protocol (Ports oldsvc ! i) = Protocol (Ports serv ! i) \<and>
          Port (Ports oldsvc ! i) = Port (Ports serv ! i)))"
    by (rule isServiceChanged_iff)
next
  assume "IsServiceIPSet serv \<and> dtype \<noteq> Deleted \<and> services st (UID serv) = Some oldsvc"
    and "\<not> isServiceChanged oldsvc serv"
  then show "handleServiceDelta node vmapAt dtype serv st = (None, st)"
    by (simp add: handle_unchanged)
next
  fix netid
  assume a: "IsServiceIPSet serv \<and> dtype \<noteq> Deleted \<and> services st (UID serv) = Some oldsvc"
    and c: "isServiceChanged oldsvc serv"
    and w: "WaitAndGetVNID vmapAt (Namespace serv) = (netid, None)"
  have h: "handleServiceDelta node vmapAt dtype serv st =
      addService node vmapAt dtype serv (st\<lparr>issued := issued st @ [CallDeleteServiceRules oldsvc]\<rparr>)"
    using a c by (simp add: handle_changed)
  show "issued (snd (handleServiceDelta node vmapAt dtype serv st)) =
          issued st @ [CallDeleteServiceRules oldsvc, CallAddServiceRules serv netid]"
    by (cases "AddServiceRules node serv netid")
       (simp_all add: h addService_ok [OF w] addService_add_failed [OF w])
next
  fix x e
  assume a: "IsServiceIPSet serv \<and> dtype \<noteq> Deleted \<and> services st (UID serv) = Some oldsvc"
    and c: "isServiceChanged oldsvc serv"
    and w: "WaitAndGetVNID vmapAt (Namespace serv) = (x, Some e)"
  have h: "handleServiceDelta node vmapAt dtype serv st =
      addService node vmapAt dtype serv (st\<lparr>issued := issued st @ [CallDeleteServiceRules oldsvc]\<rparr>)"
    using a c by (simp add: handle_changed)
  show "issued (snd (handleServiceDelta node vmapAt dtype serv st)) =
          issued st @ [CallDeleteServiceRules oldsvc]"
    by (simp add: h addService_lookup_failed [OF w])
qed

lemma webService_IP: "IsServiceIPSet (webService ps)"
  by (simp add: IsServiceIPSet_def webService_def)

lemma cachedWeb_lookup:
  "services cachedWeb (UID (webService ps)) = Some (webService [tcp ''http'' 80])"
  by (simp add: cachedWeb_def webService_def)

lemma WaitAndGetVNID_ns1:
  "WaitAndGetVNID (\<lambda>i. setVNID newNodeVNIDMap ''ns1'' 5) (Namespace (webService ps)) = (5, None)"
  by (simp add: WaitAndGetVNID_def WaitAndGetVNID_run_first ids_setVNID webService_def)

lemma WaitAndGetVNID_ns1_unknown:
  "WaitAndGetVNID (\<lambda>i. newNodeVNIDMap) (Namespace (webService ps))
     = (0, Some (errNoNetid ''ns1''))"
  by (simp add: WaitAndGetVNID_def WaitAndGetVNID_run_never newNodeVNIDMap_def webService_def)

text \<open>
  The cached port list \<open>[{TCP, 80}]\<close> against an update with the same protocol and
  port (under another port name), and against \<open>[{TCP, 80}, {TCP, 443}]\<close>, the latter
  with the namespace's VNID known and unknown.
\<close>

theorem service_change_detection_witness:
  "\<not> isServiceChanged (webService [tcp ''http'' 80]) (webService [tcp ''renamed'' 80]) \<and>
   handleServiceDelta rulesOk (\<lambda>i. setVNID newNodeVNIDMap ''ns1'' 5) Updated
     (webService [tcp ''renamed'' 80]) cachedWeb = (None, cachedWeb) \<and>
   isServiceChanged (webService [tcp ''http'' 80]) (webService [tcp ''http'' 80, tcp ''https'' 443]) \<and>
   issued (snd (handleServiceDelta rulesOk (\<lambda>i. setVNID newNodeVNIDMap ''ns1'' 5) Updated
     (webService [tcp ''http'' 80, tcp ''https'' 443]) cachedWeb)) =
     [CallDeleteServiceRules (webService [tcp ''http'' 80]),
      CallAddServiceRules (webService [tcp ''http'' 80, tcp ''https'' 443]) 5] \<and>
   issued (snd (handleServiceDelta rulesOk (\<lambda>i. newNodeVNIDMap) Updated
     (webService [tcp ''http'' 80, tcp ''https'' 443]) cachedWeb)) =
     [CallDeleteServiceRules (webService [tcp ''http'' 80])]"
proof -
  let ?old = "webService [tcp ''http'' 80]"
  let ?same = "webService [tcp ''renamed'' 80]"
  let ?new = "webService [tcp ''http'' 80, tcp ''https'' 443]"
  let ?tbl = "\<lambda>i::nat. setVNID newNodeVNIDMap ''ns1'' 5"
  let ?empty = "\<lambda>i::nat. newNodeVNIDMap"
  have ps: "Ports ?old = [tcp ''http'' 80]" "Ports ?same = [tcp ''renamed'' 80]"
    "Ports ?new = [tcp ''http'' 80, tcp ''https'' 443]"
    by (simp_all add: webService_def)
  have "length (Ports ?old) = length (Ports ?same) \<and>
        (\<forall>i<length (Ports ?old).
           Protocol (Ports ?old ! i) = Protocol (Ports ?same ! i) \<and>
           Port (Ports ?old ! i) = Port (Ports ?same ! i))"
    by (simp add: webService_def tcp_def)
  with service_change_detection [of ?old ?same Updated cachedWeb rulesOk ?tbl]
  have same: "\<not> isServiceChanged ?old ?same"
    by blast
  have "length (Ports ?old) \<noteq> length (Ports ?new)"
    by (simp add: ps)
  with service_change_detection [of ?old ?new Updated cachedWeb rulesOk ?tbl]
  have new: "isServiceChanged ?old ?new"
    by blast
  have pre1: "IsServiceIPSet ?same \<and> Updated \<noteq> Deleted \<and> services cachedWeb (UID ?same) = Some ?old"
    by (simp add: webService_IP cachedWeb_lookup)
  have pre2: "IsServiceIPSet ?new \<and> Updated \<noteq> Deleted \<and> services cachedWeb (UID ?new) = Some ?old"
    by (simp add: webService_IP cachedWeb_lookup)
  have nil: "issued cachedWeb = []"
    by (simp add: cachedWeb_def)
  from service_change_detection [of ?old ?same Updated cachedWeb rulesOk ?tbl] pre1 same
  have 1: "handleServiceDelta rulesOk ?tbl Updated ?same cachedWeb = (None, cachedWeb)"
    by blast
  from service_change_detection [of ?old ?new Updated cachedWeb rulesOk ?tbl] pre2 new
    WaitAndGetVNID_ns1 [of "[tcp ''http'' 80, tcp ''https'' 443]"]
  have "issued (snd (handleServiceDelta rulesOk ?tbl Updated ?new cachedWeb)) =
          issued cachedWeb @ [CallDeleteServiceRules ?old, CallAddServiceRules ?new 5]"
    by blast
  then have 2: "issued (snd (handleServiceDelta rulesOk ?tbl Updated ?new cachedWeb)) =
          [CallDeleteServiceRules ?old, CallAddServiceRules ?new 5]"
    by (simp only: nil append_Nil)
  from service_change_detection [of ?old ?new Updated cachedWeb rulesOk ?empty] pre2 new
    WaitAndGetVNID_ns1_unknown [of "[tcp ''http'' 80, tcp ''https'' 443]"]
  have "issued (snd (handleServiceDelta rulesOk ?empty Updated ?new cachedWeb)) =
          issued cachedWeb @ [CallDeleteServiceRules ?old]"
    by blast
  then have 3: "issued (snd (handleServiceDelta rulesOk ?empty Updated ?new cachedWeb)) =
          [CallDeleteServiceRules ?old]"
    by (simp only: nil append_Nil)
  from same new 1 2 3 show ?thesis by blast
qed

text \<open>
  C4, as written, fails: the cached port list \<open>[{TCP, 80}]\<close> changed to
  \<open>[{TCP, 80}, {TCP, 443}]\<close> while the namespace has no VNID in the table. The
  detector reports the change and the rules of the cached definition are deleted, but
  the lookup fails, the handler returns the skipped-adding error, and no addition is
  issued: the only call made is the deletion.
\<close>

theorem service_change_add_not_issued_counterexample:
  "isServiceChanged (webService [tcp ''http'' 80])
     (webService [tcp ''http'' 80, tcp ''https'' 443]) \<and>
   handleServiceDelta rulesOk noVnidsYet Updated
     (webService [tcp ''http'' 80, tcp ''https'' 443]) cachedWeb
     = (Some (errSkipped Updated (errNoNetid ''ns1'')),
        \<lparr>services = [''uid-1'' \<mapsto> webService [tcp ''http'' 80]],
         issued = [CallDeleteServiceRules (webService [tcp ''http'' 80])]\<rparr>)"
proof -
  let ?old = "webService [tcp ''http'' 80]"
  let ?new = "webService [tcp ''http'' 80, tcp ''https'' 443]"
  have new: "isServiceChanged ?old ?new"
    by (simp add: isServiceChanged_def webService_def)
  have w: "WaitAndGetVNID noVnidsYet (Namespace ?new) = (0, Some (errNoNetid ''ns1''))"
    by (simp add: WaitAndGetVNID_def WaitAndGetVNID_run_never noVnidsYet_def newNodeVNIDMap_def
        webService_def)
  have "handleServiceDelta rulesOk noVnidsYet Updated ?new cachedWeb =
          addService rulesOk noVnidsYet Updated ?new
            (cachedWeb\<lparr>issued := issued cachedWeb @ [CallDeleteServiceRules ?old]\<rparr>)"
    by (rule handle_changed [OF webService_IP _ cachedWeb_lookup new]) simp
  also have "\<dots> = (Some (errSkipped Updated (errNoNetid ''ns1'')),
                    cachedWeb\<lparr>issued := issued cachedWeb @ [CallDeleteServiceRules ?old]\<rparr>)"
    by (rule addService_lookup_failed [OF w])
  also have "cachedWeb\<lparr>issued := issued cachedWeb @ [CallDeleteServiceRules ?old]\<rparr> =
      \<lparr>services = [''uid-1'' \<mapsto> ?old], issued = [CallDeleteServiceRules ?old]\<rparr>"
    by (simp add: cachedWeb_def)
  finally have run: "handleServiceDelta rulesOk noVnidsYet Updated ?new cachedWeb
     = (Some (errSkipped Updated (errNoNetid ''ns1'')),
        \<lparr>services = [''uid-1'' \<mapsto> ?old], issued = [CallDeleteServiceRules ?old]\<rparr>)" .
  from new run show ?thesis by blast
qed

text \<open>
  C10. For a delta other than \<open>Deleted\<close>: whenever the handler returns an error the
  shadow cache is what it was, and whenever the cache has changed the VNID was resolved
  and \<open>AddServiceRules\<close> succeeded for the new definition, that call being the last one
  issued. In detail, when the handler gets as far as the lookup (the service has a
  cluster IP and is new to the cache or changed): a failed \<open>WaitAndGetVNID\<close> makes it
  return the skipped-adding error with the cache unchanged; an error of
  \<open>AddServiceRules\<close> is returned as it is, with the cache unchanged; and only when both
  succeed is the new definition stored under its UID.
\<close>

theorem shadow_cache_written_after_add:
  "(dtype \<noteq> Deleted \<and> fst (handleServiceDelta node vmapAt dtype serv st) \<noteq> None \<longrightarrow>
      services (snd (handleServiceDelta node vmapAt dtype serv st)) = services st) \<and>
   (dtype \<noteq> Deleted \<and>
    services (snd (handleServiceDelta node vmapAt dtype serv st)) \<noteq> services st \<longrightarrow>
      (\<exists>netid. WaitAndGetVNID vmapAt (Namespace serv) = (netid, None) \<and>
               AddServiceRules node serv netid = None \<and>
               last (issued (snd (handleServiceDelta node vmapAt dtype serv st)))
                 = CallAddServiceRules serv netid)) \<and>
   (IsServiceIPSet serv \<and> dtype \<noteq> Deleted \<and>
    (case services st (UID serv) of None \<Rightarrow> True | Some oldsvc \<Rightarrow> isServiceChanged oldsvc serv) \<longrightarrow>
      (\<forall>x e. WaitAndGetVNID vmapAt (Namespace serv) = (x, Some e) \<longrightarrow>
         fst (handleServiceDelta node vmapAt dtype serv st) = Some (errSkipped dtype e) \<and>
         services (snd (handleServiceDelta node vmapAt dtype serv st)) = services st) \<and>
      (\<forall>netid e. WaitAndGetVNID vmapAt (Namespace serv) = (netid, None) \<and>
                 AddServiceRules node serv netid = Some e \<longrightarrow>
         fst (handleServiceDelta node vmapAt dtype serv st) = Some e \<and>
         services (snd (handleServiceDelta node vmapAt dtype serv st)) = services st) \<and>
      (\<forall>netid. WaitAndGetVNID vmapAt (Namespace serv) = (netid, None) \<and>
               AddServiceRules node serv netid = None \<longrightarrow>
         fst (handleServiceDelta node vmapAt dtype serv st) = None \<and>
         services (snd (handleServiceDelta node vmapAt dtype serv st))
           = (services st)(UID serv \<mapsto> serv)))"
proof (cases "dtype = Deleted")
  case True
  then show ?thesis by simp
next
  case live: False
  let ?reach = "IsServiceIPSet serv \<and>
    (case services st (UID serv) of None \<Rightarrow> True | Some oldsvc \<Rightarrow> isServiceChanged oldsvc serv)"
  show ?thesis
  proof (cases ?reach)
    case False
    with live have "handleServiceDelta node vmapAt dtype serv st = (None, st)"
      by (cases dtype) (auto simp: handleServiceDelta_def updateService_def split: option.splits)
    with False show ?thesis by auto
  next
    case True
    obtain st1 where r: "handleServiceDelta node vmapAt dtype serv st
                           = addService node vmapAt dtype serv st1"
      and s: "services st1 = services st"
    proof (cases "services st (UID serv)")
      case None
      with True live that [of st] show ?thesis by (simp add: handle_new)
    next
      case (Some oldsvc)
      with True live that [of "st\<lparr>issued := issued st @ [CallDeleteServiceRules oldsvc]\<rparr>"]
      show ?thesis by (simp add: handle_changed)
    qed
    show ?thesis
    proof (cases rule: addService_cases [of vmapAt serv node dtype st1])
      case (lookup x e)
      with r s show ?thesis by auto
    next
      case (add netid e)
      with r s show ?thesis by auto
    next
      case (ok netid)
      with r s show ?thesis by auto
    qed
  qed
qed

text \<open>
  A changed definition of a cached service: with an empty VNID table, with a rule
  programmer that fails, and with one that succeeds.
\<close>

theorem shadow_cache_written_after_add_witness:
  "fst (handleServiceDelta rulesOk (\<lambda>i. newNodeVNIDMap) Updated
     (webService [tcp ''http'' 80, tcp ''https'' 443]) cachedWeb)
     = Some (errSkipped Updated (errNoNetid ''ns1'')) \<and>
   services (snd (handleServiceDelta rulesOk (\<lambda>i. newNodeVNIDMap) Updated
     (webService [tcp ''http'' 80, tcp ''https'' 443]) cachedWeb)) ''uid-1''
     = Some (webService [tcp ''http'' 80]) \<and>
   fst (handleServiceDelta rulesFail (\<lambda>i. setVNID newNodeVNIDMap ''ns1'' 5) Updated
     (webService [tcp ''http'' 80, tcp ''https'' 443]) cachedWeb)
     = Some ''ovs-ofctl: add-flow failed'' \<and>
   services (snd (handleServiceDelta rulesFail (\<lambda>i. setVNID newNodeVNIDMap ''ns1'' 5) Updated
     (webService [tcp ''http'' 80, tcp ''https'' 443]) cachedWeb)) ''uid-1''
     = Some (webService [tcp ''http'' 80]) \<and>
   services (snd (handleServiceDelta rulesOk (\<lambda>i. setVNID newNodeVNIDMap ''ns1'' 5) Updated
     (webService [tcp ''http'' 80, tcp ''https'' 443]) cachedWeb)) ''uid-1''
     = Some (webService [tcp ''http'' 80, tcp ''https'' 443]) \<and>
   last (issued (snd (handleServiceDelta rulesOk (\<lambda>i. setVNID newNodeVNIDMap ''ns1'' 5) Updated
     (webService [tcp ''http'' 80, tcp ''https'' 443]) cachedWeb)))
     = CallAddServiceRules (webService [tcp ''http'' 80, tcp ''https'' 443]) 5"
proof -
  let ?old = "webService [tcp ''http'' 80]"
  let ?new = "webService [tcp ''http'' 80, tcp ''https'' 443]"
  let ?tbl = "\<lambda>i::nat. setVNID newNodeVNIDMap ''ns1'' 5"
  let ?empty = "\<lambda>i::nat. newNodeVNIDMap"
  note T = shadow_cache_written_after_add
  have new: "isServiceChanged ?old ?new"
    by (simp add: isServiceChanged_def webService_def)
  have pre: "IsServiceIPSet ?new \<and> Updated \<noteq> Deleted \<and>
      (case services cachedWeb (UID ?new) of None \<Rightarrow> True
       | Some oldsvc \<Rightarrow> isServiceChanged oldsvc ?new)"
    by (simp add: webService_IP cachedWeb_lookup new)
  have live: "Updated \<noteq> Deleted"
    by simp
  have w0: "WaitAndGetVNID ?empty (Namespace ?new) = (0, Some (errNoNetid ''ns1''))"
    by (rule WaitAndGetVNID_ns1_unknown)
  have w5: "WaitAndGetVNID ?tbl (Namespace ?new) = (5, None)"
    by (rule WaitAndGetVNID_ns1)
  have f: "AddServiceRules rulesFail ?new 5 = Some ''ovs-ofctl: add-flow failed''"
    by (simp add: rulesFail_def)
  have k: "AddServiceRules rulesOk ?new 5 = None"
    by (simp add: rulesOk_def)
  have c: "services cachedWeb ''uid-1'' = Some ?old"
    by (simp add: cachedWeb_def)
  have u: "UID ?new = ''uid-1''"
    by (simp add: webService_def)
  have d: "?old \<noteq> ?new"
    by (simp add: webService_def)
  \<comment> \<open>the lookup fails\<close>
  from T [of Updated rulesOk ?empty ?new cachedWeb] pre w0
  have 1: "fst (handleServiceDelta rulesOk ?empty Updated ?new cachedWeb)
          = Some (errSkipped Updated (errNoNetid ''ns1''))"
    by blast
  then have "fst (handleServiceDelta rulesOk ?empty Updated ?new cachedWeb) \<noteq> None"
    by simp
  with T [of Updated rulesOk ?empty ?new cachedWeb] live
  have "services (snd (handleServiceDelta rulesOk ?empty Updated ?new cachedWeb))
          = services cachedWeb"
    by blast
  then have 2: "services (snd (handleServiceDelta rulesOk ?empty Updated ?new cachedWeb)) ''uid-1''
          = Some ?old"
    by (simp only: c)
  \<comment> \<open>the rules cannot be added\<close>
  from T [of Updated rulesFail ?tbl ?new cachedWeb] pre w5 f
  have 3: "fst (handleServiceDelta rulesFail ?tbl Updated ?new cachedWeb)
          = Some ''ovs-ofctl: add-flow failed''"
    and "services (snd (handleServiceDelta rulesFail ?tbl Updated ?new cachedWeb))
          = services cachedWeb"
    by blast+
  then have 4: "services (snd (handleServiceDelta rulesFail ?tbl Updated ?new cachedWeb)) ''uid-1''
          = Some ?old"
    by (simp only: c)
  \<comment> \<open>both succeed\<close>
  from T [of Updated rulesOk ?tbl ?new cachedWeb] pre w5 k
  have s: "services (snd (handleServiceDelta rulesOk ?tbl Updated ?new cachedWeb))
          = (services cachedWeb)(UID ?new \<mapsto> ?new)"
    by blast
  then have 5: "services (snd (handleServiceDelta rulesOk ?tbl Updated ?new cachedWeb)) ''uid-1''
          = Some ?new"
    by (simp add: u)
  with c d have "services (snd (handleServiceDelta rulesOk ?tbl Updated ?new cachedWeb))
          \<noteq> services cachedWeb"
    by (metis option.inject)
  with T [of Updated rulesOk ?tbl ?new cachedWeb] live
  obtain netid where "WaitAndGetVNID ?tbl (Namespace ?new) = (netid, None)"
    and l: "last (issued (snd (handleServiceDelta rulesOk ?tbl Updated ?new cachedWeb)))
          = CallAddServiceRules ?new netid"
    by blast
  with w5 have "netid = 5"
    by simp
  with l have 6: "last (issued (snd (handleServiceDelta rulesOk ?tbl Updated ?new cachedWeb)))
          = CallAddServiceRules ?new 5"
    by simp
  from 1 2 3 4 5 6 show ?thesis by blast
qed

end
